theory Spec2Isabelle
  imports Main "HOL-Library.Char_ord" "HOL-Library.List_Lexorder"
begin

section \<open>Strings and paths\<close>

text \<open>
  The program is \<^verbatim>\<open>script.rnaseq_map.py\<close>. A Python \<^verbatim>\<open>str\<close> is modelled as a
  \<^typ>\<open>string\<close>; each \<^typ>\<open>char\<close> stands for the code point of the same number
  (0 to 255), so comparison, concatenation and matching of the ASCII patterns used by the
  program are those of Python on such strings.
\<close>

text \<open>\<^verbatim>\<open>s.split(sep)\<close> for a one-character separator: never empty, keeps empty fields.\<close>

fun split_on :: "char \<Rightarrow> string \<Rightarrow> string list" where
  "split_on c [] = [[]]"
| "split_on c (x # xs) =
     (if x = c then [] # split_on c xs
      else (case split_on c xs of
              [] \<Rightarrow> [[x]]
            | w # ws \<Rightarrow> (x # w) # ws))"

text \<open>\<^verbatim>\<open>sep.join(xs)\<close>.\<close>

fun join :: "string \<Rightarrow> string list \<Rightarrow> string" where
  "join sep [] = []"
| "join sep [x] = x"
| "join sep (x # y # ys) = x @ sep @ join sep (y # ys)"

text \<open>
  A \<^verbatim>\<open>pathlib\<close> path on a POSIX system: the root (\<^verbatim>\<open>''\<close>, \<^verbatim>\<open>'/'\<close> or \<^verbatim>\<open>'//'\<close>) and
  the components, from which empty components and \<^verbatim>\<open>'.'\<close> are dropped.
\<close>

record path =
  root :: string
  parts :: "string list"

definition splitroot :: "string \<Rightarrow> string" where
  "splitroot s =
     (if s \<noteq> [] \<and> hd s = CHR ''/'' then
        (if length (takeWhile (\<lambda>c. c = CHR ''/'') s) = 2 then ''//'' else ''/'')
      else [])"

definition Path :: "string \<Rightarrow> path" where
  "Path s = \<lparr>root = splitroot s,
            parts = filter (\<lambda>x. x \<noteq> [] \<and> x \<noteq> ''.'') (split_on CHR ''/'' s)\<rparr>"

text \<open>\<^verbatim>\<open>str(p)\<close>\<close>

definition path_str :: "path \<Rightarrow> string" where
  "path_str p =
     (if root p = [] \<and> parts p = [] then ''.''
      else root p @ join ''/'' (parts p))"

text \<open>\<^verbatim>\<open>p.name\<close>: the last component, empty when there is none.\<close>

definition path_name :: "path \<Rightarrow> string" where
  "path_name p = (if parts p = [] then [] else last (parts p))"

text \<open>\<^verbatim>\<open>p / key\<close> for a string \<^verbatim>\<open>key\<close>: an absolute key replaces the path.\<close>

definition truediv :: "path \<Rightarrow> string \<Rightarrow> path" where
  "truediv p key =
     (let q = Path key in
      if root q \<noteq> [] then q
      else \<lparr>root = root p, parts = parts p @ parts q\<rparr>)"

section \<open>Output names\<close>

fun starts_with :: "string \<Rightarrow> string \<Rightarrow> bool" where
  "starts_with [] s = True"
| "starts_with (p # ps) [] = False"
| "starts_with (p # ps) (c # cs) = (p = c \<and> starts_with ps cs)"

definition ends_with :: "string \<Rightarrow> string \<Rightarrow> bool" where
  "ends_with suf s = starts_with (rev suf) (rev s)"

text \<open>
  \<^verbatim>\<open>re.sub('fastq$', 'sam', s)\<close>. Without the multi-line flag \<^verbatim>\<open>$\<close> matches at the end
  of the string and just before a line feed that ends the string, so there is at most one
  match.
\<close>

definition sub_fastq :: "string \<Rightarrow> string" where
  "sub_fastq s =
     (if ends_with ''fastq'' s then take (length s - 5) s @ ''sam''
      else if ends_with (''fastq'' @ [CHR 0x0A]) s
        then take (length s - 6) s @ ''sam'' @ [CHR 0x0A]
      else s)"

text \<open>
  \<^verbatim>\<open>re.sub('_R[12]_', '_', s)\<close>: every match, leftmost first, without overlap; the
  search resumes after the replaced text.
\<close>

fun sub_marker :: "string \<Rightarrow> string" where
  "sub_marker (a # b # c # d # rest) =
     (if a = CHR ''_'' \<and> b = CHR ''R'' \<and> (c = CHR ''1'' \<or> c = CHR ''2'') \<and> d = CHR ''_''
      then CHR ''_'' # sub_marker rest
      else a # sub_marker (b # c # d # rest))"
| "sub_marker s = s"

text \<open>
  The output file name of an unpaired job (line 172) and of a paired job (lines 182-183,
  where the second substitution works on the result of the first).
\<close>

definition unpaired_out_filename :: "string \<Rightarrow> string" where
  "unpaired_out_filename unpaired_f = sub_fastq (path_name (Path unpaired_f))"

definition paired_out_filename :: "string \<Rightarrow> string" where
  "paired_out_filename p1 = sub_fastq (sub_marker (path_name (Path p1)))"

section \<open>File discovery\<close>

text \<open>
  A directory is given by its path and by the names that scanning it yields, in the order
  the operating system lists them. \<^verbatim>\<open>dir.glob(pattern)\<close> keeps the names that match and
  returns each as a child of the directory. A directory that does not exist lists nothing.
\<close>

fun contains :: "string \<Rightarrow> string \<Rightarrow> bool" where
  "contains sub [] = (sub = [])"
| "contains sub (c # cs) = (starts_with sub (c # cs) \<or> contains sub cs)"

text \<open>The three patterns: \<^verbatim>\<open>*R1_paired*\<close>, \<^verbatim>\<open>*R2_paired*\<close> and \<^verbatim>\<open>*trimmed.fastq\<close>.\<close>

definition R1_paired :: "string \<Rightarrow> bool" where
  "R1_paired n = contains ''R1_paired'' n"

definition R2_paired :: "string \<Rightarrow> bool" where
  "R2_paired n = contains ''R2_paired'' n"

definition trimmed_fastq :: "string \<Rightarrow> bool" where
  "trimmed_fastq n = ends_with ''trimmed.fastq'' n"

definition make_child_relpath :: "path \<Rightarrow> string \<Rightarrow> path" where
  "make_child_relpath p n = \<lparr>root = root p, parts = parts p @ [n]\<rparr>"

definition glob :: "path \<Rightarrow> string list \<Rightarrow> (string \<Rightarrow> bool) \<Rightarrow> path list" where
  "glob dir listing pattern = map (make_child_relpath dir) (filter pattern listing)"

text \<open>\<^verbatim>\<open>find_paired\<close> (lines 97-107): the two sorted lists of path strings, zipped.\<close>

definition find_paired :: "path \<Rightarrow> string list \<Rightarrow> (string \<times> string) list" where
  "find_paired dir listing =
     (let R1 = glob dir listing R1_paired;
          R2 = glob dir listing R2_paired
      in zip (sort (map path_str R1)) (sort (map path_str R2)))"

text \<open>\<^verbatim>\<open>find_unpaired\<close> (lines 110-120).\<close>

definition find_unpaired :: "path \<Rightarrow> string list \<Rightarrow> string list \<Rightarrow> string list" where
  "find_unpaired dir listing already_paired =
     filter (\<lambda>f. f \<notin> set already_paired) (map path_str (glob dir listing trimmed_fastq))"

text \<open>The dictionary with the keys \<^verbatim>\<open>'paired'\<close> and \<^verbatim>\<open>'unpaired'\<close>.\<close>

record files =
  paired :: "(string \<times> string) list"
  unpaired :: "string list"

text \<open>\<^verbatim>\<open>chain.from_iterable(pairs)\<close>\<close>

definition chain_from_iterable :: "(string \<times> string) list \<Rightarrow> string list" where
  "chain_from_iterable pairs = concat (map (\<lambda>(a, b). [a, b]) pairs)"

text \<open>\<^verbatim>\<open>search_files\<close> (lines 137-143).\<close>

definition search_files :: "path \<Rightarrow> string list \<Rightarrow> files" where
  "search_files data_path listing =
     (let pairs = find_paired data_path listing;
          loners = find_unpaired data_path listing (chain_from_iterable pairs)
      in \<lparr>paired = pairs, unpaired = loners\<rparr>)"

section \<open>Command assembly\<close>

text \<open>
  \<^verbatim>\<open>assemble_commands\<close> (lines 165-187). For each input the loop body computes the output
  path \<^verbatim>\<open>S\<close> and yields the command; a mapping job is the pair of the two.
\<close>

record mapping_job =
  command :: string
  out_file :: string

definition unpaired_job :: "string \<Rightarrow> path \<Rightarrow> string \<Rightarrow> mapping_job" where
  "unpaired_job idx_prefix output_path unpaired_f =
     (let out_filename = unpaired_out_filename unpaired_f;
          S = path_str (truediv output_path out_filename)
      in \<lparr>command = ''hisat2 --dta -x '' @ idx_prefix @ '' -U '' @ unpaired_f @ '' -S '' @ S,
          out_file = S\<rparr>)"

definition paired_job :: "string \<Rightarrow> path \<Rightarrow> string \<times> string \<Rightarrow> mapping_job" where
  "paired_job idx_prefix output_path p =
     (case p of (p1, p2) \<Rightarrow>
        let out_filename = paired_out_filename p1;
            S = path_str (truediv output_path out_filename)
        in \<lparr>command = ''hisat2 --dta -x '' @ idx_prefix @ '' -1 '' @ p1 @ '' -2 '' @ p2
                          @ '' -S '' @ S,
            out_file = S\<rparr>)"

fun unpaired_loop :: "string \<Rightarrow> path \<Rightarrow> string list \<Rightarrow> mapping_job list" where
  "unpaired_loop idx_prefix output_path [] = []"
| "unpaired_loop idx_prefix output_path (unpaired_f # loners) =
     unpaired_job idx_prefix output_path unpaired_f # unpaired_loop idx_prefix output_path loners"

fun paired_loop :: "string \<Rightarrow> path \<Rightarrow> (string \<times> string) list \<Rightarrow> mapping_job list" where
  "paired_loop idx_prefix output_path [] = []"
| "paired_loop idx_prefix output_path (p # pairs) =
     paired_job idx_prefix output_path p # paired_loop idx_prefix output_path pairs"

definition assemble_jobs :: "files \<Rightarrow> string \<Rightarrow> string \<Rightarrow> mapping_job list" where
  "assemble_jobs fs idx_prefix output_path =
     (let output_path = Path output_path in
      unpaired_loop idx_prefix output_path (unpaired fs)
      @ paired_loop idx_prefix output_path (paired fs))"

definition assemble_commands :: "files \<Rightarrow> string \<Rightarrow> string \<Rightarrow> string list" where
  "assemble_commands fs idx_prefix output_path =
     map command (assemble_jobs fs idx_prefix output_path)"

section \<open>The generated script\<close>

text \<open>Decimal digits of a natural number, as \<^verbatim>\<open>str\<close> and the f-strings print it.\<close>

fun show_nat :: "nat \<Rightarrow> string" where
  "show_nat n =
     (if n < 10 then [''0123456789'' ! n]
      else show_nat (n div 10) @ [''0123456789'' ! (n mod 10)])"

declare show_nat.simps [simp del]


text \<open>\<^verbatim>\<open>enumerate(xs)\<close>, counting from \<open>i\<close>.\<close>

fun enumerate_from :: "nat \<Rightarrow> 'a list \<Rightarrow> (nat \<times> 'a) list" where
  "enumerate_from i [] = []"
| "enumerate_from i (x # xs) = (i, x) # enumerate_from (Suc i) xs"

text \<open>One assignment of the generated script: \<^verbatim>\<open>f"commands[{i+1}]='{s}'"\<close> (line 254).\<close>

definition command_entry :: "nat \<times> string \<Rightarrow> string" where
  "command_entry e =
     (case e of (i, s) \<Rightarrow> ''commands['' @ show_nat (i + 1) @ '']='' @ [CHR 0x27] @ s @ [CHR 0x27])"

definition command_entries :: "string list \<Rightarrow> string list" where
  "command_entries commands = map command_entry (enumerate_from 0 commands)"

definition commands_str :: "string list \<Rightarrow> string" where
  "commands_str commands = join ([CHR 0x0A] @ ''    '') (command_entries commands)"

text \<open>
  The f-string of lines 258-325, line by line: the lines before the one that holds the
  assignments (259-302), that line (303), and the lines after it (304-325, the last one
  being the blanks before the closing quotes). The text is the lines joined by line feeds.
  \<^verbatim>\<open>python3_exec_path\<close> is what \<^verbatim>\<open>which python3\<close> printed and \<^verbatim>\<open>ram\<close> the text
  of the memory option.
\<close>

definition script_head :: \<open>string \<Rightarrow> string \<Rightarrow> string list \<Rightarrow> string list\<close> where
  \<open>script_head python3_exec_path ram commands =
     [''    #! '' @ python3_exec_path,
      ''    '',
      ''    # Run through this shell'',
      ''    #$ -S '' @ python3_exec_path,
      ''    '',
      ''    # Use current working directory'',
      ''    #$ -cwd'',
      ''    '',
      ''    # Join stdout and stderr'',
      ''    #$ -j y'',
      ''    '',
      ''    # If modules are needed, source modules environment (Do not delete the next line):'',
      ''    #. /etc/profile.d/modules.sh'',
      ''    '',
      ''    # Name the job array'',
      ''    #$ -N rnaseq_map'',
      ''    '',
      ''    # Pass environment'',
      ''    #$ -V'',
      ''    '',
      ''    # Specify available RAM per process, per core.'',
      ''    #$ -l vf='' @ ram @ ''G'',
      ''    '',
      ''    # Use as many jobs as needed'',
      ''    #$ -t 1-'' @ show_nat (length commands),
      ''    '',
      ''    '',
      ''    '' @ [CHR 0x27, CHR 0x27, CHR 0x27],
      ''    '',
      ''    Paralell mapping jobs'',
      ''    ---------------------'',
      ''    '',
      ''    The current script was autogenerated with the '',
      ''    file `script.rnaseq_map.py`, look there for documentation.'',
      [],
      ''    '' @ [CHR 0x27, CHR 0x27, CHR 0x27],
      ''    import os'',
      ''    import subprocess'',
      ''    import maya'',
      ''    from pathlib import Path'',
      ''    '',
      ''    '',
      ''    # The commands to be executed'',
      ''    commands = dict()'']\<close>

definition script_tail :: \<open>string list\<close> where
  \<open>script_tail =
     [''    '',
      ''    # Fetch the job id'',
      ''    task_id = int( os.environ['SGE_TASK_ID'] )'',
      ''    '',
      ''    # Fetch the command corresponding to the current job'',
      ''    command = commands[task_id]'',
      ''    '',
      ''    # Get the name of the output file for the current job'',
      ''    output_file = command.split()[command.split().index("-S") + 1]'',
      ''    '',
      ''    # Execute the job'',
      ''    if Path(output_file).exists():'',
      ''        print(f'Task {task_id}. Output file already exists:', output_file, flush=True)'',
      ''    '',
      ''    else:'',
      ''        print(f'Task {task_id}. Executing command @', maya.now(), ':', command, flush=True)'',
      [],
      ''        subprocess.run(command.split()) # <-- Here it is executed, splitting is '',
      ''                                        #     necessary to pass the arguments '',
      ''                                        #     appropriately                            '',
      ''        print(f'Task {task_id}. Finished execution @', maya.now(), flush=True)'',
      ''    '']\<close>

definition script_lines :: "string \<Rightarrow> string \<Rightarrow> string list \<Rightarrow> string list" where
  "script_lines python3_exec_path ram commands =
     script_head python3_exec_path ram commands
     @ [''    '' @ commands_str commands]
     @ script_tail"

definition script_contents :: "string \<Rightarrow> string \<Rightarrow> string list \<Rightarrow> string" where
  "script_contents python3_exec_path ram commands =
     join [CHR 0x0A] (script_lines python3_exec_path ram commands)"

text \<open>
  \<^verbatim>\<open>textwrap.dedent\<close>: lines of blanks and tabs only become empty, the margin is the
  longest run of blanks and tabs that starts every other non-empty line, and it is removed
  from each of them.
\<close>

definition blank :: "char \<Rightarrow> bool" where
  "blank c = (c = CHR '' '' \<or> c = CHR 0x09)"

definition whitespace_only :: "string \<Rightarrow> string" where
  "whitespace_only l = (if list_all blank l then [] else l)"

fun common_prefix :: "string \<Rightarrow> string \<Rightarrow> string" where
  "common_prefix (x # xs) (y # ys) = (if x = y then x # common_prefix xs ys else [])"
| "common_prefix xs ys = []"

fun find_margin :: "string option \<Rightarrow> string list \<Rightarrow> string option" where
  "find_margin margin [] = margin"
| "find_margin margin (indent # indents) =
     find_margin
       (case margin of
          None \<Rightarrow> Some indent
        | Some m \<Rightarrow>
            if starts_with m indent then Some m
            else if starts_with indent m then Some indent
            else Some (common_prefix m indent))
       indents"

definition dedent :: "string \<Rightarrow> string" where
  "dedent text =
     (let lines = map whitespace_only (split_on (CHR 0x0A) text);
          indents = map (takeWhile blank) (filter (\<lambda>l. l \<noteq> []) lines)
      in case find_margin None indents of
           None \<Rightarrow> join [CHR 0x0A] lines
         | Some margin \<Rightarrow>
             join [CHR 0x0A]
               (map (\<lambda>l. if starts_with margin l then drop (length margin) l else l) lines))"

definition generated_script :: "string \<Rightarrow> string \<Rightarrow> string list \<Rightarrow> string" where
  "generated_script python3_exec_path ram commands =
     dedent (script_contents python3_exec_path ram commands)"

text \<open>
  Steps 1 to 3 of \<^verbatim>\<open>main\<close> (lines 236-327), after the parameters are resolved: the
  files found, the commands and the text of the script that is written and submitted.
\<close>

definition main_commands :: "string \<Rightarrow> string list \<Rightarrow> string \<Rightarrow> string \<Rightarrow> string list" where
  "main_commands input_dir listing idx_prefix output_dir =
     assemble_commands (search_files (Path input_dir) listing) idx_prefix output_dir"

definition main_script ::
  "string \<Rightarrow> string list \<Rightarrow> string \<Rightarrow> string \<Rightarrow> string \<Rightarrow> string \<Rightarrow> string" where
  "main_script input_dir listing idx_prefix output_dir ram python3_exec_path =
     generated_script python3_exec_path ram
       (main_commands input_dir listing idx_prefix output_dir)"

section \<open>Running the generated script\<close>

text \<open>
  \<^verbatim>\<open>str.split()\<close> separates on runs of white space and yields no empty token. The white
  space among the first 256 code points is listed.
\<close>

definition is_space :: "char \<Rightarrow> bool" where
  "is_space c =
     (c \<in> set [CHR 0x09, CHR 0x0A, CHR 0x0B, CHR 0x0C, CHR 0x0D, CHR 0x1C, CHR 0x1D,
               CHR 0x1E, CHR 0x1F, CHR 0x20, CHR 0x85, CHR 0xA0])"

fun split_from :: "string \<Rightarrow> string \<Rightarrow> string list" where
  "split_from cur [] = (if cur = [] then [] else [cur])"
| "split_from cur (c # cs) =
     (if is_space c then (if cur = [] then split_from [] cs else cur # split_from [] cs)
      else split_from (cur @ [c]) cs)"

definition split_ws :: "string \<Rightarrow> string list" where
  "split_ws s = split_from [] s"

text \<open>A string without white space.\<close>

definition no_whitespace :: "string \<Rightarrow> bool" where
  "no_whitespace s = list_all (\<lambda>c. \<not> is_space c) s"

datatype py_error = KeyError | ValueError | IndexError

text \<open>\<^verbatim>\<open>xs.index(x)\<close>: the first position, \<^verbatim>\<open>ValueError\<close> when there is none.\<close>

fun index_of :: "'a list \<Rightarrow> 'a \<Rightarrow> nat option" where
  "index_of [] x = None"
| "index_of (y # ys) x = (if y = x then Some 0 else map_option Suc (index_of ys x))"

text \<open>Line 312: \<^verbatim>\<open>command.split()[command.split().index("-S") + 1]\<close>.\<close>

definition output_file :: "string \<Rightarrow> py_error + string" where
  "output_file cmd =
     (let tokens = split_ws cmd in
      case index_of tokens ''-S'' of
        None \<Rightarrow> Inl ValueError
      | Some i \<Rightarrow> if i + 1 < length tokens then Inr (tokens ! (i + 1)) else Inl IndexError)"




section \<open>Properties\<close>

subsection \<open>The loops of the assembler\<close>

lemma unpaired_loop_map:
  "unpaired_loop idx_prefix output_path loners = map (unpaired_job idx_prefix output_path) loners"
  by (induction loners) simp_all

lemma paired_loop_map:
  "paired_loop idx_prefix output_path pairs = map (paired_job idx_prefix output_path) pairs"
  by (induction pairs) simp_all

text \<open>
  C2: for the pair \<^verbatim>\<open>sample_R1_001.fastq\<close>, \<^verbatim>\<open>sample_R2_001.fastq\<close> the output file name of
  the paired job is \<^verbatim>\<open>sample_001.sam\<close>, computed from the first file of the pair; for
  \<^verbatim>\<open>sampleX_trimmed.fastq\<close> the output file name of the unpaired job is
  \<^verbatim>\<open>sampleX_trimmed.sam\<close>. The jobs place these names in the output directory.
\<close>

theorem naming_round_trip:
  "paired_out_filename ''sample_R1_001.fastq'' = ''sample_001.sam''
   \<and> out_file (paired_job idx_prefix (Path ''out'') (''sample_R1_001.fastq'', ''sample_R2_001.fastq''))
       = ''out/sample_001.sam''
   \<and> unpaired_out_filename ''sampleX_trimmed.fastq'' = ''sampleX_trimmed.sam''
   \<and> out_file (unpaired_job idx_prefix (Path ''out'') ''sampleX_trimmed.fastq'')
       = ''out/sampleX_trimmed.sam''"
  by (simp add: paired_job_def unpaired_job_def paired_out_filename_def unpaired_out_filename_def
      Path_def path_name_def sub_fastq_def ends_with_def truediv_def path_str_def splitroot_def
      Let_def)

text \<open>
  C4: \<^verbatim>\<open>find_unpaired\<close> returns no path that is among the already paired ones, and in
  the result of \<^verbatim>\<open>search_files\<close>, whose pairs are those of \<^verbatim>\<open>find_paired\<close>, no unpaired
  file is the first or the second member of a pair, whatever the directory holds.
\<close>

theorem paired_unpaired_disjoint:
  "set (find_unpaired dir listing already_paired) \<inter> set already_paired = {}
   \<and> paired (search_files dir listing) = find_paired dir listing
   \<and> set (unpaired (search_files dir listing))
       \<inter> (fst ` set (paired (search_files dir listing))
          \<union> snd ` set (paired (search_files dir listing))) = {}"
proof -
  have "set (chain_from_iterable ps) = fst ` set ps \<union> snd ` set ps" for ps
    by (induction ps) (auto simp: chain_from_iterable_def)
  then show ?thesis
    by (auto simp: search_files_def find_unpaired_def Let_def)
qed

theorem paired_unpaired_disjoint_witness:
  "search_files (Path ''d'') [''t_trimmed.fastq'', ''xR2_paired_trimmed.fastq'', ''xR1_paired_trimmed.fastq'']
     = \<lparr>paired = [(''d/xR1_paired_trimmed.fastq'', ''d/xR2_paired_trimmed.fastq'')],
        unpaired = [''d/t_trimmed.fastq'']\<rparr>
   \<and> set (unpaired (search_files (Path ''d'')
               [''t_trimmed.fastq'', ''xR2_paired_trimmed.fastq'', ''xR1_paired_trimmed.fastq'']))
       \<inter> (fst ` set (paired (search_files (Path ''d'')
               [''t_trimmed.fastq'', ''xR2_paired_trimmed.fastq'', ''xR1_paired_trimmed.fastq'']))
          \<union> snd ` set (paired (search_files (Path ''d'')
               [''t_trimmed.fastq'', ''xR2_paired_trimmed.fastq'', ''xR1_paired_trimmed.fastq''])))
       = {}"
proof (rule conjI)
  show "search_files (Path ''d'') [''t_trimmed.fastq'', ''xR2_paired_trimmed.fastq'', ''xR1_paired_trimmed.fastq'']
     = \<lparr>paired = [(''d/xR1_paired_trimmed.fastq'', ''d/xR2_paired_trimmed.fastq'')],
        unpaired = [''d/t_trimmed.fastq'']\<rparr>"
    by code_simp
next
  from paired_unpaired_disjoint
    [of "Path ''d''" "[''t_trimmed.fastq'', ''xR2_paired_trimmed.fastq'', ''xR1_paired_trimmed.fastq'']" "[]"]
  show "set (unpaired (search_files (Path ''d'')
               [''t_trimmed.fastq'', ''xR2_paired_trimmed.fastq'', ''xR1_paired_trimmed.fastq'']))
       \<inter> (fst ` set (paired (search_files (Path ''d'')
               [''t_trimmed.fastq'', ''xR2_paired_trimmed.fastq'', ''xR1_paired_trimmed.fastq'']))
          \<union> snd ` set (paired (search_files (Path ''d'')
               [''t_trimmed.fastq'', ''xR2_paired_trimmed.fastq'', ''xR1_paired_trimmed.fastq''])))
       = {}"
    by (rule conjunct2 [THEN conjunct2])
qed

text \<open>
  C5: when the two lists of matches differ in length, \<^verbatim>\<open>find_paired\<close> (which has no
  failing branch) returns as many pairs as the shorter list has files, fewer than the longer
  one: the pairs are made of the first files of each sorted list and the rest is dropped.
\<close>

theorem find_paired_truncates:
  assumes "length (glob dir listing R1_paired) \<noteq> length (glob dir listing R2_paired)"
  shows "length (find_paired dir listing)
           = min (length (glob dir listing R1_paired)) (length (glob dir listing R2_paired))
         \<and> length (find_paired dir listing)
           < max (length (glob dir listing R1_paired)) (length (glob dir listing R2_paired))
         \<and> map fst (find_paired dir listing)
           = take (length (find_paired dir listing)) (sort (map path_str (glob dir listing R1_paired)))
         \<and> map snd (find_paired dir listing)
           = take (length (find_paired dir listing)) (sort (map path_str (glob dir listing R2_paired)))"
  using assms by (auto simp: find_paired_def Let_def map_fst_zip_take map_snd_zip_take)

theorem find_paired_truncates_witness:
  "length (glob (Path ''d'') [''bR1_paired'', ''aR2_paired'', ''aR1_paired''] R1_paired) = 2
   \<and> length (glob (Path ''d'') [''bR1_paired'', ''aR2_paired'', ''aR1_paired''] R2_paired) = 1
   \<and> find_paired (Path ''d'') [''bR1_paired'', ''aR2_paired'', ''aR1_paired'']
       = [(''d/aR1_paired'', ''d/aR2_paired'')]
   \<and> length (find_paired (Path ''d'') [''bR1_paired'', ''aR2_paired'', ''aR1_paired'']) = min 2 1"
proof -
  let ?L = "[''bR1_paired'', ''aR2_paired'', ''aR1_paired'']"
  have a: "length (glob (Path ''d'') ?L R1_paired) = 2" by code_simp
  have b: "length (glob (Path ''d'') ?L R2_paired) = 1" by code_simp
  have c: "find_paired (Path ''d'') ?L = [(''d/aR1_paired'', ''d/aR2_paired'')]" by code_simp
  have h: "length (glob (Path ''d'') ?L R1_paired) \<noteq> length (glob (Path ''d'') ?L R2_paired)"
    unfolding a b by simp
  from find_paired_truncates [OF h] a b c show ?thesis by simp
qed

text \<open>
  C6: the commands of \<^verbatim>\<open>assemble_commands\<close> are those of the unpaired files, in the order
  of the list of unpaired files, followed by those of the pairs, in the order of the list of
  pairs: the command at position \<open>i\<close> is that of the \<open>i\<close>-th unpaired file, and after the
  unpaired ones the command at position \<open>j\<close> is that of the \<open>j\<close>-th pair.
\<close>

theorem assemble_commands_order:
  "assemble_commands fs idx_prefix output_path
     = map (\<lambda>f. command (unpaired_job idx_prefix (Path output_path) f)) (unpaired fs)
       @ map (\<lambda>p. command (paired_job idx_prefix (Path output_path) p)) (paired fs)
   \<and> length (assemble_commands fs idx_prefix output_path)
       = length (unpaired fs) + length (paired fs)
   \<and> (\<forall>i < length (unpaired fs).
         assemble_commands fs idx_prefix output_path ! i
           = command (unpaired_job idx_prefix (Path output_path) (unpaired fs ! i)))
   \<and> (\<forall>j < length (paired fs).
         assemble_commands fs idx_prefix output_path ! (length (unpaired fs) + j)
           = command (paired_job idx_prefix (Path output_path) (paired fs ! j)))"
proof -
  have eq: "assemble_commands fs idx_prefix output_path
     = map (\<lambda>f. command (unpaired_job idx_prefix (Path output_path) f)) (unpaired fs)
       @ map (\<lambda>p. command (paired_job idx_prefix (Path output_path) p)) (paired fs)"
    by (simp add: assemble_commands_def assemble_jobs_def Let_def unpaired_loop_map paired_loop_map)
  show ?thesis
    unfolding eq by (simp add: nth_append)
qed

theorem assemble_commands_order_witness:
  "assemble_commands \<lparr>paired = [(''p'', ''q'')], unpaired = [''a'', ''b'']\<rparr> ''i'' ''o''
     = [''hisat2 --dta -x i -U a -S o/a'', ''hisat2 --dta -x i -U b -S o/b'',
        ''hisat2 --dta -x i -1 p -2 q -S o/p'']
   \<and> assemble_commands \<lparr>paired = [(''p'', ''q'')], unpaired = [''a'', ''b'']\<rparr> ''i'' ''o'' ! 1
     = command (unpaired_job ''i'' (Path ''o'') ''b'')
   \<and> assemble_commands \<lparr>paired = [(''p'', ''q'')], unpaired = [''a'', ''b'']\<rparr> ''i'' ''o'' ! (2 + 0)
     = command (paired_job ''i'' (Path ''o'') (''p'', ''q''))"
proof -
  let ?fs = "\<lparr>paired = [(''p'', ''q'')], unpaired = [''a'', ''b'']\<rparr>"
  note t = assemble_commands_order [of ?fs "''i''" "''o''"]
  have e: "assemble_commands ?fs ''i'' ''o''
     = [''hisat2 --dta -x i -U a -S o/a'', ''hisat2 --dta -x i -U b -S o/b'',
        ''hisat2 --dta -x i -1 p -2 q -S o/p'']"
    by (simp add: assemble_commands_def assemble_jobs_def unpaired_job_def paired_job_def
        paired_out_filename_def unpaired_out_filename_def Path_def path_name_def sub_fastq_def
        ends_with_def truediv_def path_str_def splitroot_def Let_def)
  from t have "\<forall>i < length (unpaired ?fs).
      assemble_commands ?fs ''i'' ''o'' ! i = command (unpaired_job ''i'' (Path ''o'') (unpaired ?fs ! i))"
    by (elim conjE)
  from this [rule_format, of 1]
  have u: "assemble_commands ?fs ''i'' ''o'' ! 1 = command (unpaired_job ''i'' (Path ''o'') ''b'')"
    by simp
  from t have "\<forall>j < length (paired ?fs).
      assemble_commands ?fs ''i'' ''o'' ! (length (unpaired ?fs) + j)
        = command (paired_job ''i'' (Path ''o'') (paired ?fs ! j))"
    by (elim conjE)
  from this [rule_format, of 0]
  have p: "assemble_commands ?fs ''i'' ''o'' ! (2 + 0) = command (paired_job ''i'' (Path ''o'') (''p'', ''q''))"
    by (simp add: numeral_2_eq_2)
  show ?thesis
    by (intro conjI) (rule e u p)+
qed

subsection \<open>Names that the substitutions do not change\<close>

lemma sub_marker_unchanged:
  "\<not> contains ''_R1_'' s \<Longrightarrow> \<not> contains ''_R2_'' s \<Longrightarrow> sub_marker s = s"
  by (induction s rule: sub_marker.induct) auto

lemma sub_fastq_unchanged:
  "\<not> ends_with ''fastq'' s \<Longrightarrow> \<not> ends_with (''fastq'' @ [CHR 0x0A]) s \<Longrightarrow> sub_fastq s = s"
  by (simp add: sub_fastq_def)

text \<open>
  C9, as stated, fails: a file name without a trailing \<^verbatim>\<open>fastq\<close>, or without a read
  marker, raises nothing. The unpaired file \<^verbatim>\<open>reads.txt\<close> and the pair that starts with
  \<^verbatim>\<open>one.fastq\<close> each yield a command, the first with the output path
  \<^verbatim>\<open>out/reads.txt\<close>.
\<close>

theorem malformed_filename_counterexample:
  "\<not> ends_with ''fastq'' (path_name (Path ''reads.txt''))
   \<and> \<not> ends_with (''fastq'' @ [CHR 0x0A]) (path_name (Path ''reads.txt''))
   \<and> \<not> contains ''_R1_'' (path_name (Path ''one.fastq''))
   \<and> \<not> contains ''_R2_'' (path_name (Path ''one.fastq''))
   \<and> assemble_commands \<lparr>paired = [(''one.fastq'', ''two.fastq'')], unpaired = [''reads.txt'']\<rparr>
        ''idx'' ''out''
       = [''hisat2 --dta -x idx -U reads.txt -S out/reads.txt'',
          ''hisat2 --dta -x idx -1 one.fastq -2 two.fastq -S out/one.sam'']"
  by (simp add: assemble_commands_def assemble_jobs_def unpaired_job_def paired_job_def
      paired_out_filename_def unpaired_out_filename_def Path_def path_name_def sub_fastq_def
      ends_with_def truediv_def path_str_def splitroot_def Let_def)

text \<open>
  C9, amended: command assembly has no failing branch and yields one command per unpaired
  file and per pair. A substitution that finds nothing to replace leaves the name as it is:
  without a trailing \<^verbatim>\<open>fastq\<close> (at the end or before a final line feed) the output name
  of an unpaired file is its own name; without a read marker the output name of a pair is
  the first file's name with only the \<^verbatim>\<open>fastq\<close> substitution applied; and when the name
  left by the marker substitution has no trailing \<^verbatim>\<open>fastq\<close>, it is the output name. The
  output path is that name inside the output directory.
\<close>

theorem malformed_filename_unchanged:
  "(\<not> ends_with ''fastq'' (path_name (Path f))
      \<and> \<not> ends_with (''fastq'' @ [CHR 0x0A]) (path_name (Path f))
     \<longrightarrow> unpaired_out_filename f = path_name (Path f)
         \<and> out_file (unpaired_job idx_prefix output_path f)
             = path_str (truediv output_path (path_name (Path f))))
   \<and> (\<not> contains ''_R1_'' (path_name (Path p1)) \<and> \<not> contains ''_R2_'' (path_name (Path p1))
     \<longrightarrow> paired_out_filename p1 = sub_fastq (path_name (Path p1))
         \<and> out_file (paired_job idx_prefix output_path (p1, p2))
             = path_str (truediv output_path (sub_fastq (path_name (Path p1)))))
   \<and> (\<not> ends_with ''fastq'' (sub_marker (path_name (Path p1)))
      \<and> \<not> ends_with (''fastq'' @ [CHR 0x0A]) (sub_marker (path_name (Path p1)))
     \<longrightarrow> paired_out_filename p1 = sub_marker (path_name (Path p1))
         \<and> out_file (paired_job idx_prefix output_path (p1, p2))
             = path_str (truediv output_path (sub_marker (path_name (Path p1)))))
   \<and> length (assemble_commands fs idx_prefix out_dir) = length (unpaired fs) + length (paired fs)"
  by (simp add: unpaired_out_filename_def paired_out_filename_def unpaired_job_def paired_job_def
      sub_marker_unchanged sub_fastq_unchanged assemble_commands_def assemble_jobs_def
      Let_def unpaired_loop_map paired_loop_map)


theorem malformed_filename_unchanged_witness:
  "\<not> ends_with ''fastq'' (path_name (Path ''reads.txt''))
   \<and> \<not> ends_with (''fastq'' @ [CHR 0x0A]) (path_name (Path ''reads.txt''))
   \<and> out_file (unpaired_job ''idx'' (Path ''out'') ''reads.txt'') = ''out/reads.txt''
   \<and> \<not> contains ''_R1_'' (path_name (Path ''one.txt''))
   \<and> \<not> contains ''_R2_'' (path_name (Path ''one.txt''))
   \<and> \<not> ends_with ''fastq'' (sub_marker (path_name (Path ''one.txt'')))
   \<and> \<not> ends_with (''fastq'' @ [CHR 0x0A]) (sub_marker (path_name (Path ''one.txt'')))
   \<and> out_file (paired_job ''idx'' (Path ''out'') (''one.txt'', ''two.txt'')) = ''out/one.txt''"
proof -
  have n1: "path_name (Path ''reads.txt'') = ''reads.txt''"
    and n2: "path_name (Path ''one.txt'') = ''one.txt''"
    by (simp_all add: Path_def path_name_def)
  have h1: "\<not> ends_with ''fastq'' (path_name (Path ''reads.txt''))
      \<and> \<not> ends_with (''fastq'' @ [CHR 0x0A]) (path_name (Path ''reads.txt''))"
    unfolding n1 by (simp add: ends_with_def)
  have h2: "\<not> contains ''_R1_'' (path_name (Path ''one.txt''))
      \<and> \<not> contains ''_R2_'' (path_name (Path ''one.txt''))"
    unfolding n2 by simp
  have m: "sub_marker ''one.txt'' = ''one.txt''"
    by simp
  have h3: "\<not> ends_with ''fastq'' (sub_marker (path_name (Path ''one.txt'')))
      \<and> \<not> ends_with (''fastq'' @ [CHR 0x0A]) (sub_marker (path_name (Path ''one.txt'')))"
    unfolding n2 m by (simp add: ends_with_def)
  note t = malformed_filename_unchanged
    [of "''reads.txt''" "''idx''" "Path ''out''" "''one.txt''" "''two.txt''"
        "\<lparr>paired = [], unpaired = []\<rparr>" "''out''"]
  from t h1 have "out_file (unpaired_job ''idx'' (Path ''out'') ''reads.txt'')
      = path_str (truediv (Path ''out'') (path_name (Path ''reads.txt'')))"
    by blast
  also have "\<dots> = ''out/reads.txt''"
    unfolding n1 by (simp add: truediv_def Path_def path_str_def splitroot_def Let_def)
  finally have c1: "out_file (unpaired_job ''idx'' (Path ''out'') ''reads.txt'') = ''out/reads.txt''" .
  from t h3 have "out_file (paired_job ''idx'' (Path ''out'') (''one.txt'', ''two.txt''))
      = path_str (truediv (Path ''out'') (sub_marker (path_name (Path ''one.txt''))))"
    by blast
  also have "\<dots> = ''out/one.txt''"
    unfolding n2 m by (simp add: truediv_def Path_def path_str_def splitroot_def Let_def)
  finally have c2: "out_file (paired_job ''idx'' (Path ''out'') (''one.txt'', ''two.txt'')) = ''out/one.txt''" .
  from h1 h2 h3 c1 c2 show ?thesis by blast
qed

subsection \<open>One task of the generated script\<close>




subsection \<open>Pairing\<close>

lemma join_snoc: "join sep (ps @ [n]) = (if ps = [] then n else join sep ps @ sep @ n)"
  by (induction sep ps rule: join.induct) auto

lemma child_str:
  "path_str (make_child_relpath d n)
     = root d @ (if parts d = [] then [] else join ''/'' (parts d) @ ''/'') @ n"
  by (simp add: path_str_def make_child_relpath_def join_snoc)

lemma distinct_glob_str:
  assumes "distinct listing"
  shows "distinct (map path_str (glob dir listing pattern))"
proof -
  have "inj (\<lambda>n. path_str (make_child_relpath dir n))"
    by (rule injI) (simp add: child_str)
  then have "inj_on (path_str \<circ> make_child_relpath dir) (set (filter pattern listing))"
    by (auto simp: inj_on_def dest: injD)
  with assms show ?thesis
    by (simp add: glob_def distinct_map)
qed

lemma unique_index:
  assumes "distinct xs" "f \<in> set xs"
  shows "\<exists>!i. i < length xs \<and> xs ! i = f"
  using assms by (metis in_set_conv_nth nth_eq_iff_index_eq)

text \<open>
  C3, as stated, fails: a file whose name matches both patterns is in both lists. In the
  directory below the two lists have two files each, and \<^verbatim>\<open>bR1_pairedR2_paired\<close> is the
  first member of the first pair and the second member of the second pair.
\<close>

theorem find_paired_exactly_one_counterexample:
  "distinct [''bR1_pairedR2_paired'', ''cR1_paired'', ''aR2_paired'']
   \<and> length (glob (Path ''d'') [''bR1_pairedR2_paired'', ''cR1_paired'', ''aR2_paired''] R1_paired)
     = length (glob (Path ''d'') [''bR1_pairedR2_paired'', ''cR1_paired'', ''aR2_paired''] R2_paired)
   \<and> find_paired (Path ''d'') [''bR1_pairedR2_paired'', ''cR1_paired'', ''aR2_paired'']
     = [(''d/bR1_pairedR2_paired'', ''d/aR2_paired''), (''d/cR1_paired'', ''d/bR1_pairedR2_paired'')]
   \<and> \<not> (\<exists>!i. i < length (find_paired (Path ''d'')
                           [''bR1_pairedR2_paired'', ''cR1_paired'', ''aR2_paired''])
              \<and> (fst (find_paired (Path ''d'')
                         [''bR1_pairedR2_paired'', ''cR1_paired'', ''aR2_paired''] ! i)
                    = ''d/bR1_pairedR2_paired''
                  \<or> snd (find_paired (Path ''d'')
                         [''bR1_pairedR2_paired'', ''cR1_paired'', ''aR2_paired''] ! i)
                    = ''d/bR1_pairedR2_paired''))"
proof -
  let ?L = "[''bR1_pairedR2_paired'', ''cR1_paired'', ''aR2_paired'']"
  let ?D = "Path ''d''"
  have d: "distinct ?L" by simp
  have l: "length (glob ?D ?L R1_paired) = length (glob ?D ?L R2_paired)"
    by code_simp
  have e: "find_paired ?D ?L
     = [(''d/bR1_pairedR2_paired'', ''d/aR2_paired''), (''d/cR1_paired'', ''d/bR1_pairedR2_paired'')]"
    by code_simp
  have n: "\<not> (\<exists>!i. i < length (find_paired ?D ?L)
              \<and> (fst (find_paired ?D ?L ! i) = ''d/bR1_pairedR2_paired''
                  \<or> snd (find_paired ?D ?L ! i) = ''d/bR1_pairedR2_paired''))"
  proof
    assume "\<exists>!i. i < length (find_paired ?D ?L)
              \<and> (fst (find_paired ?D ?L ! i) = ''d/bR1_pairedR2_paired''
                  \<or> snd (find_paired ?D ?L ! i) = ''d/bR1_pairedR2_paired'')"
    then have "\<And>i j. i < length (find_paired ?D ?L)
              \<and> (fst (find_paired ?D ?L ! i) = ''d/bR1_pairedR2_paired''
                  \<or> snd (find_paired ?D ?L ! i) = ''d/bR1_pairedR2_paired'')
          \<Longrightarrow> j < length (find_paired ?D ?L)
              \<and> (fst (find_paired ?D ?L ! j) = ''d/bR1_pairedR2_paired''
                  \<or> snd (find_paired ?D ?L ! j) = ''d/bR1_pairedR2_paired'') \<Longrightarrow> i = j"
      by blast
    from this [of 0 1] show False
      unfolding e by simp
  qed
  show ?thesis
    by (intro conjI) (rule d, rule l, rule e, rule n)
qed


text \<open>
  C3, amended: when the two lists of matches have the same length, \<^verbatim>\<open>find_paired\<close> returns
  the two lists of path strings, each sorted on its own, zipped by position. Every file of
  the first list is the first member of exactly one pair and every file of the second list
  is the second member of exactly one pair; when no file is in both lists, every file
  appears in exactly one pair. The names of a directory listing are distinct.
\<close>

theorem find_paired_sorted_zip:
  assumes "distinct listing"
    and "length (glob dir listing R1_paired) = length (glob dir listing R2_paired)"
  shows "find_paired dir listing
           = zip (sort (map path_str (glob dir listing R1_paired)))
                 (sort (map path_str (glob dir listing R2_paired)))
         \<and> map fst (find_paired dir listing) = sort (map path_str (glob dir listing R1_paired))
         \<and> map snd (find_paired dir listing) = sort (map path_str (glob dir listing R2_paired))
         \<and> sorted (map fst (find_paired dir listing))
         \<and> sorted (map snd (find_paired dir listing))
         \<and> (\<forall>f \<in> set (map path_str (glob dir listing R1_paired)).
               \<exists>!i. i < length (find_paired dir listing) \<and> fst (find_paired dir listing ! i) = f)
         \<and> (\<forall>f \<in> set (map path_str (glob dir listing R2_paired)).
               \<exists>!i. i < length (find_paired dir listing) \<and> snd (find_paired dir listing ! i) = f)
         \<and> (set (map path_str (glob dir listing R1_paired))
               \<inter> set (map path_str (glob dir listing R2_paired)) = {}
             \<longrightarrow> (\<forall>f \<in> set (map path_str (glob dir listing R1_paired))
                        \<union> set (map path_str (glob dir listing R2_paired)).
                    \<exists>!i. i < length (find_paired dir listing)
                         \<and> (fst (find_paired dir listing ! i) = f
                            \<or> snd (find_paired dir listing ! i) = f)))"
proof -
  define A where "A = sort (map path_str (glob dir listing R1_paired))"
  define B where "B = sort (map path_str (glob dir listing R2_paired))"
  define ps where "ps = find_paired dir listing"
  have ps: "ps = zip A B"
    by (simp add: ps_def A_def B_def find_paired_def Let_def)
  have len: "length A = length B"
    using assms(2) by (simp add: A_def B_def)
  have dA: "distinct A" and dB: "distinct B"
    using distinct_glob_str [OF assms(1)] by (simp_all add: A_def B_def)
  have sA: "set A = set (map path_str (glob dir listing R1_paired))"
    and sB: "set B = set (map path_str (glob dir listing R2_paired))"
    by (simp_all add: A_def B_def)
  have lps: "length ps = length A"
    using len by (simp add: ps)
  have fsts: "map fst ps = A" and snds: "map snd ps = B"
    using len by (simp_all add: ps)
  have nf: "fst (ps ! i) = A ! i" and ns: "snd (ps ! i) = B ! i" if "i < length ps" for i
    using that len by (simp_all add: ps)
  have one_fst: "\<exists>!i. i < length ps \<and> fst (ps ! i) = f" if "f \<in> set A" for f
  proof -
    from unique_index [OF dA that] obtain i where i: "i < length A" "A ! i = f"
      and u: "\<And>j. j < length A \<Longrightarrow> A ! j = f \<Longrightarrow> j = i"
      by blast
    show ?thesis
    proof (rule ex1I [of _ i])
      show "i < length ps \<and> fst (ps ! i) = f"
        using i lps nf by simp
    next
      fix j assume "j < length ps \<and> fst (ps ! j) = f"
      then have "j < length A" "A ! j = f" using lps nf by auto
      then show "j = i" by (rule u)
    qed
  qed
  have one_snd: "\<exists>!i. i < length ps \<and> snd (ps ! i) = f" if "f \<in> set B" for f
  proof -
    from unique_index [OF dB that] obtain i where i: "i < length B" "B ! i = f"
      and u: "\<And>j. j < length B \<Longrightarrow> B ! j = f \<Longrightarrow> j = i"
      by blast
    show ?thesis
    proof (rule ex1I [of _ i])
      show "i < length ps \<and> snd (ps ! i) = f"
        using i lps len ns by simp
    next
      fix j assume "j < length ps \<and> snd (ps ! j) = f"
      then have "j < length B" "B ! j = f" using lps len ns by auto
      then show "j = i" by (rule u)
    qed
  qed
  have one: "\<exists>!i. i < length ps \<and> (fst (ps ! i) = f \<or> snd (ps ! i) = f)"
    if disj: "set A \<inter> set B = {}" and f: "f \<in> set A \<union> set B" for f
  proof (cases "f \<in> set A")
    case True
    then have "f \<notin> set B" using disj by blast
    then have "snd (ps ! j) \<noteq> f" if "j < length ps" for j
      using that ns lps len by (metis nth_mem)
    with one_fst [OF True] show ?thesis by metis
  next
    case False
    then have fB: "f \<in> set B" using f by blast
    from False have "fst (ps ! j) \<noteq> f" if "j < length ps" for j
      using that nf lps by (metis nth_mem)
    with one_snd [OF fB] show ?thesis by metis
  qed
  have "ps = zip A B \<and> map fst ps = A \<and> map snd ps = B
        \<and> sorted (map fst ps) \<and> sorted (map snd ps)
        \<and> (\<forall>f \<in> set A. \<exists>!i. i < length ps \<and> fst (ps ! i) = f)
        \<and> (\<forall>f \<in> set B. \<exists>!i. i < length ps \<and> snd (ps ! i) = f)
        \<and> (set A \<inter> set B = {}
            \<longrightarrow> (\<forall>f \<in> set A \<union> set B.
                   \<exists>!i. i < length ps \<and> (fst (ps ! i) = f \<or> snd (ps ! i) = f)))"
    using ps fsts snds one_fst one_snd one
    by (simp add: A_def B_def)
  then show ?thesis
    unfolding sA sB unfolding ps_def A_def B_def .
qed


theorem find_paired_sorted_zip_witness:
  "distinct [''bR1_paired'', ''aR2_paired'', ''aR1_paired'', ''bR2_paired'']
   \<and> length (glob (Path ''d'') [''bR1_paired'', ''aR2_paired'', ''aR1_paired'', ''bR2_paired''] R1_paired)
     = length (glob (Path ''d'') [''bR1_paired'', ''aR2_paired'', ''aR1_paired'', ''bR2_paired''] R2_paired)
   \<and> find_paired (Path ''d'') [''bR1_paired'', ''aR2_paired'', ''aR1_paired'', ''bR2_paired'']
     = [(''d/aR1_paired'', ''d/aR2_paired''), (''d/bR1_paired'', ''d/bR2_paired'')]
   \<and> sorted (map fst (find_paired (Path ''d'')
                 [''bR1_paired'', ''aR2_paired'', ''aR1_paired'', ''bR2_paired'']))
   \<and> (\<exists>!i. i < length (find_paired (Path ''d'')
                        [''bR1_paired'', ''aR2_paired'', ''aR1_paired'', ''bR2_paired''])
           \<and> (fst (find_paired (Path ''d'')
                      [''bR1_paired'', ''aR2_paired'', ''aR1_paired'', ''bR2_paired''] ! i)
                 = ''d/bR2_paired''
               \<or> snd (find_paired (Path ''d'')
                      [''bR1_paired'', ''aR2_paired'', ''aR1_paired'', ''bR2_paired''] ! i)
                 = ''d/bR2_paired''))"
proof -
  let ?L = "[''bR1_paired'', ''aR2_paired'', ''aR1_paired'', ''bR2_paired'']"
  let ?D = "Path ''d''"
  have d: "distinct ?L" by simp
  have g1: "map path_str (glob ?D ?L R1_paired) = [''d/bR1_paired'', ''d/aR1_paired'']"
    and g2: "map path_str (glob ?D ?L R2_paired) = [''d/aR2_paired'', ''d/bR2_paired'']"
    by code_simp+
  have l: "length (glob ?D ?L R1_paired) = length (glob ?D ?L R2_paired)"
    using arg_cong [OF g1, of length] arg_cong [OF g2, of length] by simp
  have e: "find_paired ?D ?L = [(''d/aR1_paired'', ''d/aR2_paired''), (''d/bR1_paired'', ''d/bR2_paired'')]"
    by code_simp
  have dj: "set (map path_str (glob ?D ?L R1_paired)) \<inter> set (map path_str (glob ?D ?L R2_paired)) = {}"
    unfolding g1 g2 by simp
  have m: "''d/bR2_paired'' \<in> set (map path_str (glob ?D ?L R1_paired))
       \<union> set (map path_str (glob ?D ?L R2_paired))"
    unfolding g1 g2 by simp
  note t = find_paired_sorted_zip [OF d l]
  from t have s: "sorted (map fst (find_paired ?D ?L))"
    by (elim conjE)
  from t have "set (map path_str (glob ?D ?L R1_paired))
               \<inter> set (map path_str (glob ?D ?L R2_paired)) = {}
             \<longrightarrow> (\<forall>f \<in> set (map path_str (glob ?D ?L R1_paired))
                        \<union> set (map path_str (glob ?D ?L R2_paired)).
                    \<exists>!i. i < length (find_paired ?D ?L)
                         \<and> (fst (find_paired ?D ?L ! i) = f \<or> snd (find_paired ?D ?L ! i) = f))"
    by (elim conjE)
  from this [rule_format, OF dj m]
  have u: "\<exists>!i. i < length (find_paired ?D ?L)
             \<and> (fst (find_paired ?D ?L ! i) = ''d/bR2_paired''
                \<or> snd (find_paired ?D ?L ! i) = ''d/bR2_paired'')" .
  show ?thesis
    by (intro conjI) (rule d, rule l, rule e, rule s, rule u)
qed

subsection \<open>The token after \<^verbatim>\<open>-S\<close>\<close>


lemma split_from_blank:
  "split_from cur (CHR '' '' # rest)
     = (if cur = [] then split_from [] rest else cur # split_from [] rest)"
  by (simp add: is_space_def)







lemma no_whitespace_iff: "no_whitespace s \<longleftrightarrow> (\<forall>c \<in> set s. \<not> is_space c)"
  by (simp add: no_whitespace_def list_all_iff)


lemma no_whitespace_append [simp]:
  "no_whitespace (s @ t) \<longleftrightarrow> no_whitespace s \<and> no_whitespace t"
  by (auto simp: no_whitespace_iff)

lemma split_on_not_Nil: "split_on c s \<noteq> []"
  by (induction s) (auto split: list.splits)




















subsection \<open>The lines of the generated script\<close>

lemma starts_with_iff: "starts_with p s \<longleftrightarrow> (\<exists>r. s = p @ r)"
  by (induction p s rule: starts_with.induct) auto

lemma starts_with_refl: "starts_with p p"
  by (simp add: starts_with_iff)

lemma starts_with_trans: "starts_with a b \<Longrightarrow> starts_with b c \<Longrightarrow> starts_with a c"
  by (auto simp: starts_with_iff)

lemma starts_with_antisym: "starts_with a b \<Longrightarrow> starts_with b a \<Longrightarrow> a = b"
  by (auto simp: starts_with_iff)

lemma common_prefix_left: "starts_with (common_prefix a b) a"
  by (induction a b rule: common_prefix.induct) auto

lemma common_prefix_right: "starts_with (common_prefix a b) b"
  by (induction a b rule: common_prefix.induct) auto

lemma common_prefix_greatest:
  "starts_with p a \<Longrightarrow> starts_with p b \<Longrightarrow> starts_with p (common_prefix a b)"
proof (induction p arbitrary: a b)
  case Nil
  then show ?case by simp
next
  case (Cons c p)
  from Cons.prems(1) obtain a' where a: "a = c # a'"
    by (cases a) auto
  from Cons.prems(2) obtain b' where b: "b = c # b'"
    by (cases b) auto
  from Cons.prems have "starts_with p a'" "starts_with p b'"
    by (simp_all add: a b)
  then have "starts_with p (common_prefix a' b')"
    by (rule Cons.IH)
  then show ?case by (simp add: a b)
qed

lemma common_prefix_starts1: "starts_with a b \<Longrightarrow> common_prefix a b = a"
  by (intro starts_with_antisym common_prefix_left common_prefix_greatest starts_with_refl)

lemma common_prefix_starts2: "starts_with b a \<Longrightarrow> common_prefix a b = b"
  by (intro starts_with_antisym common_prefix_right common_prefix_greatest starts_with_refl)

lemma split_on_append: "split_on c (a @ c # b) = split_on c a @ split_on c b"
proof (induction a)
  case Nil
  then show ?case by simp
next
  case (Cons x xs)
  obtain w ws where "split_on c xs = w # ws"
    using split_on_not_Nil [of c xs] by (cases "split_on c xs") auto
  with Cons show ?case by simp
qed

lemma split_on_free: "c \<notin> set l \<Longrightarrow> split_on c l = [l]"
  by (induction l) auto

lemma split_on_join:
  "ls \<noteq> [] \<Longrightarrow> split_on c (join [c] ls) = concat (map (split_on c) ls)"
proof (induction ls)
  case Nil
  then show ?case by simp
next
  case (Cons x xs)
  show ?case
  proof (cases xs)
    case Nil
    then show ?thesis by simp
  next
    case (Cons y ys)
    with Cons.IH show ?thesis by (simp add: split_on_append)
  qed
qed

lemma split_on_pieces: "p \<in> set (split_on c s) \<Longrightarrow> c \<notin> set p"
proof (induction s arbitrary: p)
  case Nil
  then show ?case by simp
next
  case (Cons x xs)
  obtain w ws where sp: "split_on c xs = w # ws"
    using split_on_not_Nil [of c xs] by (cases "split_on c xs") auto
  show ?case
  proof (cases "x = c")
    case True
    with Cons show ?thesis by auto
  next
    case False
    with sp Cons.prems have "p = x # w \<or> p \<in> set ws" by simp
    then show ?thesis
      using Cons.IH [of w] Cons.IH [of p] sp False by auto
  qed
qed

lemma split_join_free:
  assumes "ls \<noteq> []" "\<forall>l \<in> set ls. c \<notin> set l"
  shows "split_on c (join [c] ls) = ls"
proof -
  have "concat (map (split_on c) ls) = ls"
    using assms(2) by (induction ls) (simp_all add: split_on_free)
  then show ?thesis using assms(1) by (simp add: split_on_join)
qed


text \<open>
  The margin that \<^verbatim>\<open>dedent\<close> finds is the longest common prefix of the indents: it starts
  each of them, and every string that starts all of them starts the margin.
\<close>

lemma find_margin_Some:
  "find_margin (Some m) indents = Some (fold (\<lambda>i m. common_prefix m i) indents m)"
proof (induction indents arbitrary: m)
  case Nil
  then show ?case by simp
next
  case (Cons i indents)
  have "(if starts_with m i then Some m
         else if starts_with i m then Some i
         else Some (common_prefix m i)) = Some (common_prefix m i)"
    by (simp add: common_prefix_starts1 common_prefix_starts2)
  then show ?case by (simp add: Cons)
qed

lemma fold_common_prefix_first:
  "starts_with (fold (\<lambda>i m. common_prefix m i) indents m) m"
proof (induction indents arbitrary: m)
  case Nil
  then show ?case by (simp add: starts_with_refl)
next
  case (Cons i indents)
  from Cons.IH [of "common_prefix m i"] common_prefix_left [of m i]
  show ?case by (auto intro: starts_with_trans)
qed

lemma fold_common_prefix_all:
  "i \<in> set indents \<Longrightarrow> starts_with (fold (\<lambda>i m. common_prefix m i) indents m) i"
proof (induction indents arbitrary: m)
  case Nil
  then show ?case by simp
next
  case (Cons j indents)
  from Cons.prems have "i = j \<or> i \<in> set indents" by simp
  then show ?case
  proof
    assume "i = j"
    with fold_common_prefix_first [of indents "common_prefix m j"] common_prefix_right [of m j]
    show ?thesis by (auto intro: starts_with_trans)
  next
    assume "i \<in> set indents"
    from Cons.IH [OF this] show ?thesis by simp
  qed
qed

lemma fold_common_prefix_greatest:
  "starts_with p m \<Longrightarrow> \<forall>i \<in> set indents. starts_with p i
   \<Longrightarrow> starts_with p (fold (\<lambda>i m. common_prefix m i) indents m)"
  by (induction indents arbitrary: m) (simp_all add: common_prefix_greatest)

lemma margin_prefix:
  assumes "find_margin None indents = Some m" "i \<in> set indents"
  shows "starts_with m i"
proof (cases indents)
  case Nil
  with assms show ?thesis by simp
next
  case (Cons j js)
  with assms have m: "m = fold (\<lambda>i m. common_prefix m i) js j"
    by (simp add: find_margin_Some)
  from assms(2) Cons have "i = j \<or> i \<in> set js" by simp
  then show ?thesis
    unfolding m using fold_common_prefix_first fold_common_prefix_all by blast
qed

lemma margin_greatest:
  assumes "indents \<noteq> []" "\<forall>i \<in> set indents. starts_with p i"
  shows "\<exists>m. find_margin None indents = Some m \<and> starts_with p m"
proof (cases indents)
  case Nil
  with assms show ?thesis by simp
next
  case (Cons j js)
  with assms show ?thesis
    by (simp add: find_margin_Some fold_common_prefix_greatest)
qed

lemma whitespace_only_free: "c \<notin> set l \<Longrightarrow> c \<notin> set (whitespace_only l)"
  by (simp add: whitespace_only_def)

text \<open>
  The lines of a dedented text are the lines of the text, each without the margin; a line
  that is not blank keeps everything after a prefix of its own indent.
\<close>

lemma dedent_lines:
  "split_on (CHR 0x0A) (dedent text) =
     (let lines = map whitespace_only (split_on (CHR 0x0A) text) in
      case find_margin None (map (takeWhile blank) (filter (\<lambda>l. l \<noteq> []) lines)) of
        None \<Rightarrow> lines
      | Some margin \<Rightarrow>
          map (\<lambda>l. if starts_with margin l then drop (length margin) l else l) lines)"
proof -
  define lines where "lines = map whitespace_only (split_on (CHR 0x0A) text)"
  have ne: "lines \<noteq> []"
    by (simp add: lines_def split_on_not_Nil)
  have free: "\<forall>l \<in> set lines. CHR 0x0A \<notin> set l"
    by (auto simp: lines_def whitespace_only_def dest: split_on_pieces)
  have free': "\<forall>l \<in> set (map (\<lambda>l. if starts_with m l then drop (length m) l else l) lines).
      CHR 0x0A \<notin> set l" for m
    using free by (auto dest: in_set_dropD)
  show ?thesis
    unfolding dedent_def Let_def lines_def [symmetric]
    using split_join_free [OF ne free] split_join_free [OF _ free'] ne
    by (simp split: option.split)
qed



lemma dedent_exact:
  assumes all: "\<forall>l \<in> set (split_on (CHR 0x0A) text). list_all blank l \<or> starts_with m0 l"
    and m0: "list_all blank m0"
    and one: "d \<in> set (split_on (CHR 0x0A) text)" "\<not> list_all blank d" "takeWhile blank d = m0"
  shows "split_on (CHR 0x0A) (dedent text)
           = map (\<lambda>l. if list_all blank l then [] else drop (length m0) l)
               (split_on (CHR 0x0A) text)"
proof -
  define lines where "lines = map whitespace_only (split_on (CHR 0x0A) text)"
  define indents where "indents = map (takeWhile blank) (filter (\<lambda>l. l \<noteq> []) lines)"
  have d: "d \<in> set lines"
    using one by (force simp: lines_def whitespace_only_def)
  have "d \<noteq> []" using one(2) by auto
  with d one(3) have i: "m0 \<in> set indents"
    by (force simp: indents_def)
  then have ne: "indents \<noteq> []" by auto
  have pre: "starts_with m0 (takeWhile blank l)" if "starts_with m0 l" for l
  proof -
    from that obtain r where "l = m0 @ r" by (auto simp: starts_with_iff)
    with m0 have "takeWhile blank l = m0 @ takeWhile blank r"
      by (simp add: list_all_iff)
    then show ?thesis by (simp add: starts_with_iff)
  qed
  have "\<forall>i \<in> set indents. starts_with m0 i"
    using all pre by (auto simp: indents_def lines_def whitespace_only_def)
  from margin_greatest [OF ne this] obtain m where m: "find_margin None indents = Some m"
    and "starts_with m0 m" by auto
  with margin_prefix [OF m i] have mm: "m = m0"
    by (simp add: starts_with_antisym)
  have "map (\<lambda>l. if starts_with m0 l then drop (length m0) l else l) lines
      = map (\<lambda>l. if list_all blank l then [] else drop (length m0) l)
          (split_on (CHR 0x0A) text)"
    using all by (auto simp: lines_def whitespace_only_def)
  then show ?thesis
    unfolding dedent_lines Let_def lines_def [symmetric] indents_def [symmetric] m mm by simp
qed


text \<open>
  The line of the task range is a line of the text that \<^verbatim>\<open>main\<close> builds, whatever is
  substituted, and the first line of the text is indented by four blanks.
\<close>

lemma show_nat_digits: "set (show_nat n) \<subseteq> set ''0123456789''"
proof (induction n rule: show_nat.induct)
  case (1 n)
  have d: "''0123456789'' ! k \<in> set ''0123456789''" if "k < 10" for k
    using that by (intro nth_mem) simp
  show ?case
  proof (cases "n < 10")
    case True
    with d [of n] show ?thesis by (subst show_nat.simps) simp
  next
    case False
    with 1 d [of "n mod 10"] show ?thesis by (subst show_nat.simps) simp
  qed
qed

lemma show_nat_free: "CHR 0x0A \<notin> set (show_nat n)"
  using show_nat_digits [of n] by auto

lemma script_lines_split:
  "split_on (CHR 0x0A) (script_contents py ram cmds)
     = concat (map (split_on (CHR 0x0A)) (script_head py ram cmds))
       @ split_on (CHR 0x0A) (''    '' @ commands_str cmds)
       @ concat (map (split_on (CHR 0x0A)) script_tail)"
  by (simp add: script_contents_def script_lines_def split_on_join)

lemma directive_in_head:
  "''    #$ -t 1-'' @ show_nat (length cmds) \<in> set (script_head py ram cmds)"
  by (simp add: script_head_def)

lemma directive_line:
  "''    #$ -t 1-'' @ show_nat (length cmds) \<in> set (split_on (CHR 0x0A) (script_contents py ram cmds))"
proof -
  have "split_on (CHR 0x0A) (''    #$ -t 1-'' @ show_nat (length cmds))
      = [''    #$ -t 1-'' @ show_nat (length cmds)]"
    by (rule split_on_free) (simp add: show_nat_free)
  with directive_in_head [of cmds py ram] show ?thesis
    unfolding script_lines_split by force
qed




text \<open>
  When what \<^verbatim>\<open>which python3\<close> printed is one line, and neither the memory option nor a
  command contains a line feed, every line of the text is blank or indented by four blanks,
  so the margin is four blanks.
\<close>

lemma split_on_snoc: "c \<notin> set a \<Longrightarrow> split_on c (a @ [c]) = [a, []]"
  using split_on_append [of c a "[]"] by (simp add: split_on_free)

lemma split_on_joined:
  assumes "c \<notin> set pre" "\<forall>e \<in> set es. c \<notin> set e"
  shows "split_on c (pre @ join (c # pre) es) = (if es = [] then [pre] else map ((@) pre) es)"
  using assms(2)
proof (induction es)
  case Nil
  with assms(1) show ?case by (simp add: split_on_free)
next
  case (Cons x xs)
  show ?case
  proof (cases xs)
    case Nil
    with Cons.prems assms(1) show ?thesis by (simp add: split_on_free)
  next
    case (Cons y ys)
    have "pre @ join (c # pre) (x # y # ys) = (pre @ x) @ c # (pre @ join (c # pre) (y # ys))"
      by simp
    then have "split_on c (pre @ join (c # pre) (x # y # ys))
        = split_on c (pre @ x) @ split_on c (pre @ join (c # pre) (y # ys))"
      by (simp only: split_on_append)
    with Cons.IH Cons.prems Cons assms(1) show ?thesis
      by (simp add: split_on_free)
  qed
qed

lemma enumerate_from_snd: "e \<in> set (enumerate_from k xs) \<Longrightarrow> snd e \<in> set xs"
  by (induction k xs rule: enumerate_from.induct) auto

lemma command_entries_free:
  assumes "\<forall>c \<in> set cmds. CHR 0x0A \<notin> set c"
  shows "\<forall>e \<in> set (command_entries cmds). CHR 0x0A \<notin> set e"
  using assms enumerate_from_snd [of _ 0 cmds]
  by (auto simp: command_entries_def command_entry_def show_nat_free split: prod.splits)

lemma commands_line_split:
  assumes "\<forall>c \<in> set cmds. CHR 0x0A \<notin> set c"
  shows "split_on (CHR 0x0A) (''    '' @ commands_str cmds)
           = (if cmds = [] then [''    ''] else map ((@) ''    '') (command_entries cmds))"
proof -
  have "command_entries cmds = [] \<longleftrightarrow> cmds = []"
    by (cases cmds) (simp_all add: command_entries_def)
  with split_on_joined [OF _ command_entries_free [OF assms], of "''    ''"]
  show ?thesis
    by (simp add: commands_str_def)
qed

lemma tail_lines:
  "\<forall>x \<in> set script_tail. \<forall>l \<in> set (split_on (CHR 0x0A) x). list_all blank l \<or> starts_with ''    '' l"
  by (simp add: script_tail_def blank_def)

lemma head_lines:
  assumes "CHR 0x0A \<notin> set p" "CHR 0x0A \<notin> set ram"
  shows "\<forall>x \<in> set (script_head (p @ [CHR 0x0A]) ram cmds).
           \<forall>l \<in> set (split_on (CHR 0x0A) x). list_all blank l \<or> starts_with ''    '' l"
proof -
  have a: "split_on (CHR 0x0A) (p @ [CHR 0x0A]) = [p, []]"
    using assms(1) by (rule split_on_snoc)
  have b: "split_on (CHR 0x0A) (ram @ ''G'') = [ram @ ''G'']"
    using assms(2) by (intro split_on_free) simp
  have c: "split_on (CHR 0x0A) (show_nat (length cmds)) = [show_nat (length cmds)]"
    by (intro split_on_free show_nat_free)
  show ?thesis
    by (simp add: script_head_def blank_def a b c)
qed


lemma generated_script_lines:
  assumes "CHR 0x0A \<notin> set p" "CHR 0x0A \<notin> set ram" "\<forall>c \<in> set cmds. CHR 0x0A \<notin> set c"
  shows "''#$ -t 1-'' @ show_nat (length cmds)
           \<in> set (split_on (CHR 0x0A) (generated_script (p @ [CHR 0x0A]) ram cmds))
         \<and> (\<exists>pre post. split_on (CHR 0x0A) (generated_script (p @ [CHR 0x0A]) ram cmds)
                          = pre @ command_entries cmds @ post)"
proof -
  let ?text = "script_contents (p @ [CHR 0x0A]) ram cmds"
  let ?f = "\<lambda>l. if list_all blank l then [] else drop (length ''    '') l"
  let ?d = "''    #$ -t 1-'' @ show_nat (length cmds)"
  define H where "H = concat (map (split_on (CHR 0x0A)) (script_head (p @ [CHR 0x0A]) ram cmds))"
  define C where "C = split_on (CHR 0x0A) (''    '' @ commands_str cmds)"
  define T where "T = concat (map (split_on (CHR 0x0A)) script_tail)"
  have L0: "split_on (CHR 0x0A) ?text = H @ C @ T"
    by (simp add: script_lines_split H_def C_def T_def)
  have C: "C = (if cmds = [] then [''    ''] else map ((@) ''    '') (command_entries cmds))"
    unfolding C_def by (rule commands_line_split [OF assms(3)])
  have "\<forall>l \<in> set C. list_all blank l \<or> starts_with ''    '' l"
    unfolding C by (auto simp: blank_def)
  with head_lines [OF assms(1,2), of cmds] tail_lines
  have all: "\<forall>l \<in> set (split_on (CHR 0x0A) ?text). list_all blank l \<or> starts_with ''    '' l"
    unfolding L0 by (auto simp: H_def T_def)
  have nb: "\<not> list_all blank ?d" and tw: "takeWhile blank ?d = ''    ''"
    and b4: "list_all blank ''    ''"
    by (simp_all add: blank_def)
  from dedent_exact [OF all b4 directive_line nb tw]
  have ex: "split_on (CHR 0x0A) (generated_script (p @ [CHR 0x0A]) ram cmds)
      = map ?f (split_on (CHR 0x0A) ?text)"
    unfolding generated_script_def by simp
  have lines: "split_on (CHR 0x0A) (generated_script (p @ [CHR 0x0A]) ram cmds)
      = map ?f H @ map ?f C @ map ?f T"
    unfolding ex L0 by simp
  have fd: "?f ?d = ''#$ -t 1-'' @ show_nat (length cmds)"
    using nb by simp
  from imageI [OF directive_line, of ?f cmds "p @ [CHR 0x0A]" ram]
  have "?f ?d \<in> ?f ` set (split_on (CHR 0x0A) ?text)" .
  then have "''#$ -t 1-'' @ show_nat (length cmds) \<in> ?f ` set (split_on (CHR 0x0A) ?text)"
    by (simp only: fd)
  then have one: "''#$ -t 1-'' @ show_nat (length cmds)
      \<in> set (split_on (CHR 0x0A) (generated_script (p @ [CHR 0x0A]) ram cmds))"
    by (simp only: ex set_map)
  have e: "?f (''    '' @ e) = e" if "e \<in> set (command_entries cmds)" for e
  proof -
    from that obtain i s where "e = command_entry (i, s)"
      by (auto simp: command_entries_def)
    then have "\<not> list_all blank (''    '' @ e)"
      by (simp add: command_entry_def blank_def)
    then show ?thesis by (simp add: blank_def)
  qed
  have "map ?f (map ((@) ''    '') (command_entries cmds)) = command_entries cmds"
    using e by (simp add: map_idI)
  then have "\<exists>pre post. map ?f C = pre @ command_entries cmds @ post"
  proof (cases "cmds = []")
    case True
    then have "map ?f C = [] @ command_entries cmds @ map ?f C"
      by (simp add: command_entries_def)
    then show ?thesis by blast
  next
    case False
    assume "map ?f (map ((@) ''    '') (command_entries cmds)) = command_entries cmds"
    with False C have "map ?f C = [] @ command_entries cmds @ []" by simp
    then show ?thesis by blast
  qed
  then obtain pre post where "map ?f C = pre @ command_entries cmds @ post" by blast
  then have "split_on (CHR 0x0A) (generated_script (p @ [CHR 0x0A]) ram cmds)
      = (map ?f H @ pre) @ command_entries cmds @ (post @ map ?f T)"
    unfolding lines by simp
  then have two: "\<exists>pre post. split_on (CHR 0x0A) (generated_script (p @ [CHR 0x0A]) ram cmds)
      = pre @ command_entries cmds @ post"
    by blast
  from one two show ?thesis by (rule conjI)
qed







text \<open>Different numbers print differently.\<close>

lemma show_nat_small: "n < 10 \<Longrightarrow> show_nat n = [''0123456789'' ! n]"
  by (subst show_nat.simps) simp







subsection \<open>End to end\<close>

lemma filter_single:
  "distinct xs \<Longrightarrow> x \<in> set xs \<Longrightarrow> P x \<Longrightarrow> (\<And>y. y \<in> set xs \<Longrightarrow> y \<noteq> x \<Longrightarrow> \<not> P y)
   \<Longrightarrow> filter P xs = [x]"
proof (induction xs)
  case Nil
  then show ?case by simp
next
  case (Cons a xs)
  show ?case
  proof (cases "a = x")
    case True
    with Cons.prems have "filter P xs = []" by (auto simp: filter_empty_conv)
    with True Cons.prems show ?thesis by simp
  next
    case False
    with Cons show ?thesis by auto
  qed
qed

lemma three_files:
  assumes "distinct ls" "set ls = {''a_R1_paired.fastq'', ''a_R2_paired.fastq'', ''b_trimmed.fastq''}"
  shows "filter R1_paired ls = [''a_R1_paired.fastq'']
         \<and> filter R2_paired ls = [''a_R2_paired.fastq'']
         \<and> filter trimmed_fastq ls = [''b_trimmed.fastq'']"
proof -
  have r1: "R1_paired ''a_R1_paired.fastq''" "\<not> R1_paired ''a_R2_paired.fastq''"
    "\<not> R1_paired ''b_trimmed.fastq''"
    by (simp_all add: R1_paired_def)
  have r2: "\<not> R2_paired ''a_R1_paired.fastq''" "R2_paired ''a_R2_paired.fastq''"
    "\<not> R2_paired ''b_trimmed.fastq''"
    by (simp_all add: R2_paired_def)
  have tr: "\<not> trimmed_fastq ''a_R1_paired.fastq''" "\<not> trimmed_fastq ''a_R2_paired.fastq''"
    "trimmed_fastq ''b_trimmed.fastq''"
    by (simp_all add: trimmed_fastq_def ends_with_def)
  have others: "y = ''a_R1_paired.fastq'' \<or> y = ''a_R2_paired.fastq'' \<or> y = ''b_trimmed.fastq''"
    if "y \<in> set ls" for y
    using that assms(2) by blast
  have a: "filter R1_paired ls = [''a_R1_paired.fastq'']"
  proof (rule filter_single [OF assms(1)])
    show "''a_R1_paired.fastq'' \<in> set ls" unfolding assms(2) by blast
    show "R1_paired ''a_R1_paired.fastq''" by (rule r1)
    show "\<not> R1_paired y" if "y \<in> set ls" "y \<noteq> ''a_R1_paired.fastq''" for y
      using others [OF that(1)] that(2) r1 by blast
  qed
  have b: "filter R2_paired ls = [''a_R2_paired.fastq'']"
  proof (rule filter_single [OF assms(1)])
    show "''a_R2_paired.fastq'' \<in> set ls" unfolding assms(2) by blast
    show "R2_paired ''a_R2_paired.fastq''" by (rule r2)
    show "\<not> R2_paired y" if "y \<in> set ls" "y \<noteq> ''a_R2_paired.fastq''" for y
      using others [OF that(1)] that(2) r2 by blast
  qed
  have c: "filter trimmed_fastq ls = [''b_trimmed.fastq'']"
  proof (rule filter_single [OF assms(1)])
    show "''b_trimmed.fastq'' \<in> set ls" unfolding assms(2) by blast
    show "trimmed_fastq ''b_trimmed.fastq''" by (rule tr)
    show "\<not> trimmed_fastq y" if "y \<in> set ls" "y \<noteq> ''b_trimmed.fastq''" for y
      using others [OF that(1)] that(2) tr by blast
  qed
  from a b c show ?thesis by simp
qed

text \<open>
  C1: for a directory (the current one, so that the files are found under their bare names)
  that holds exactly \<^verbatim>\<open>a_R1_paired.fastq\<close>, \<^verbatim>\<open>a_R2_paired.fastq\<close> and \<^verbatim>\<open>b_trimmed.fastq\<close>,
  in any order, with the index prefix \<^verbatim>\<open>idx\<close> and the output directory \<^verbatim>\<open>out/\<close>, the
  commands are exactly the unpaired command and then the paired command below, and the
  generated script has the line \<^verbatim>\<open>#$ -t 1-2\<close>: a task array of size 2. The interpreter's
  path is one line and the memory option has no line feed.
\<close>

theorem end_to_end:
  assumes "distinct listing"
    and "set listing = {''a_R1_paired.fastq'', ''a_R2_paired.fastq'', ''b_trimmed.fastq''}"
    and "CHR 0x0A \<notin> set python3" and "CHR 0x0A \<notin> set ram"
  shows "main_commands ''.'' listing ''idx'' ''out/'' =
           [''hisat2 --dta -x idx -U b_trimmed.fastq -S out/b_trimmed.sam'',
            ''hisat2 --dta -x idx -1 a_R1_paired.fastq -2 a_R2_paired.fastq -S out/a_paired.sam'']
         \<and> ''#$ -t 1-2''
             \<in> set (split_on (CHR 0x0A)
                      (main_script ''.'' listing ''idx'' ''out/'' ram (python3 @ [CHR 0x0A])))"
proof -
  let ?cmds = "[''hisat2 --dta -x idx -U b_trimmed.fastq -S out/b_trimmed.sam'',
      ''hisat2 --dta -x idx -1 a_R1_paired.fastq -2 a_R2_paired.fastq -S out/a_paired.sam'']"
  have sf: "search_files (Path ''.'') listing =
      \<lparr>paired = [(''a_R1_paired.fastq'', ''a_R2_paired.fastq'')], unpaired = [''b_trimmed.fastq'']\<rparr>"
    by (simp add: search_files_def find_paired_def find_unpaired_def glob_def
        three_files [OF assms(1,2)] Let_def make_child_relpath_def Path_def path_str_def
        splitroot_def chain_from_iterable_def)
  have c: "main_commands ''.'' listing ''idx'' ''out/'' = ?cmds"
    unfolding main_commands_def sf
    by (simp add: assemble_commands_def assemble_jobs_def unpaired_job_def paired_job_def
        paired_out_filename_def unpaired_out_filename_def Path_def path_name_def sub_fastq_def
        ends_with_def truediv_def path_str_def splitroot_def Let_def)
  have f: "\<forall>c \<in> set ?cmds. CHR 0x0A \<notin> set c"
    by simp
  have n: "show_nat (length ?cmds) = ''2''"
    by (simp add: show_nat_small)
  from generated_script_lines [OF assms(3,4) f]
  have "''#$ -t 1-'' @ show_nat (length ?cmds)
      \<in> set (split_on (CHR 0x0A) (generated_script (python3 @ [CHR 0x0A]) ram ?cmds))"
    by (rule conjunct1)
  then have "''#$ -t 1-2''
      \<in> set (split_on (CHR 0x0A) (generated_script (python3 @ [CHR 0x0A]) ram ?cmds))"
    unfolding n by simp
  then show ?thesis
    unfolding main_script_def c by (simp add: c)
qed

theorem end_to_end_witness:
  "distinct [''a_R1_paired.fastq'', ''a_R2_paired.fastq'', ''b_trimmed.fastq'']
   \<and> CHR 0x0A \<notin> set ''/usr/bin/python3'' \<and> CHR 0x0A \<notin> set ''8''
   \<and> main_commands ''.'' [''a_R1_paired.fastq'', ''a_R2_paired.fastq'', ''b_trimmed.fastq'']
        ''idx'' ''out/'' =
       [''hisat2 --dta -x idx -U b_trimmed.fastq -S out/b_trimmed.sam'',
        ''hisat2 --dta -x idx -1 a_R1_paired.fastq -2 a_R2_paired.fastq -S out/a_paired.sam'']
   \<and> ''#$ -t 1-2''
       \<in> set (split_on (CHR 0x0A)
                (main_script ''.'' [''a_R1_paired.fastq'', ''a_R2_paired.fastq'', ''b_trimmed.fastq'']
                   ''idx'' ''out/'' ''8'' (''/usr/bin/python3'' @ [CHR 0x0A])))"
proof -
  have d: "distinct [''a_R1_paired.fastq'', ''a_R2_paired.fastq'', ''b_trimmed.fastq'']"
    by simp
  have s: "set [''a_R1_paired.fastq'', ''a_R2_paired.fastq'', ''b_trimmed.fastq'']
      = {''a_R1_paired.fastq'', ''a_R2_paired.fastq'', ''b_trimmed.fastq''}"
    by simp
  have p: "CHR 0x0A \<notin> set ''/usr/bin/python3''" and r: "CHR 0x0A \<notin> set ''8''"
    by simp_all
  note t = end_to_end [OF d s p r]
  show ?thesis
    by (intro conjI) (rule d p r t [THEN conjunct1] t [THEN conjunct2])+
qed

end
